theory Spec2Isabelle
  imports Main
begin

section \<open>SQLHighlight: highlighting reference snippets in SQL text\<close>

text \<open>
  A shallow embedding of \<^verbatim>\<open>SQLHighlight.tsx\<close> (the component of
  \<^verbatim>\<open>wren-ui/src/components/pages/home/thread/feedback\<close>) and of its earlier variant.
  The component splits the SQL text into lines, groups the references by the line they
  declare, builds one regular expression per line from the snippets of that line's
  references, splits the line with it and wraps every piece the expression matches in a
  \<^verbatim>\<open><mark>\<close> carrying the tags of the references whose own snippet matches the piece.

  Conventions of the embedding.
  \<^item> A JavaScript string is a \<open>string\<close>, one \<open>char\<close> per UTF-16 code unit; the
    embedding covers the strings all of whose code units are below 256.
  \<^item> An exception is a value \<open>Inl e\<close> of the result type \<open>error + 'a\<close>.
  \<^item> The JavaScript built-ins the component calls (\<^verbatim>\<open>RegExp\<close>,
    \<^verbatim>\<open>RegExp.prototype.test\<close>, \<^verbatim>\<open>String.prototype.split\<close>, lodash's
    \<^verbatim>\<open>groupBy\<close>, \<^verbatim>\<open>Object.keys\<close>) are embedded after ECMA-262, for the
    fragment of the pattern language described at \<open>parse\<close>. A pattern outside the fragment
    yields \<open>Inl Unmodelled\<close>: that value is not an exception of the program, it says that
    the embedding makes no statement about the input.
\<close>

subsection \<open>Data model\<close>

datatype error = TypeError | SyntaxError | Unmodelled

text \<open>
  \<^verbatim>\<open>Reference\<close> (imported from \<^verbatim>\<open>./utils\<close>): the fields the component reads.
  \<open>sqlLocation = None\<close> is a missing (\<^verbatim>\<open>undefined\<close> or \<^verbatim>\<open>null\<close>) location,
  \<open>Some l\<close> is \<^verbatim>\<open>{ line: l }\<close>.
\<close>

record reference =
  referenceNum :: int
  ref_type :: string
  sqlSnippet :: string
  sqlLocation :: "int option"

text \<open>
  What the component renders: a highlighted line is a list of \<^verbatim>\<open><mark>\<close> and
  \<^verbatim>\<open><span>\<close> elements, \<open>Mark part matchedReferences\<close> standing for the marked
  piece with one tag per matched reference. A line without highlights is rendered as its
  text.
\<close>

datatype node = Mark string "reference list" | Span string

datatype line_div = Line string | Highlights "node list"

record rendered =
  content :: "line_div list"
  warned :: "reference list option"

fun node_text :: "node \<Rightarrow> string" where
  "node_text (Mark part rs) = part"
| "node_text (Span part) = part"

fun node_refs :: "node \<Rightarrow> reference list" where
  "node_refs (Mark part rs) = rs"
| "node_refs (Span part) = []"

fun is_mark :: "node \<Rightarrow> bool" where
  "is_mark (Mark part rs) = True"
| "is_mark (Span part) = False"

text \<open>The segments of a rendered line: a line without highlights is one plain segment.\<close>

fun segments :: "line_div \<Rightarrow> node list" where
  "segments (Line l) = [Span l]"
| "segments (Highlights ns) = ns"

definition div_text :: "line_div \<Rightarrow> string" where
  "div_text d = concat (map node_text (segments d))"

subsection \<open>Characters\<close>

definition backslash :: char where
  "backslash = CHR 0x5C"

definition newline :: char where
  "newline = CHR 0x0A"

definition tab :: char where
  "tab = CHR 0x09"

text \<open>
  \<^verbatim>\<open>WhiteSpace\<close> and \<^verbatim>\<open>LineTerminator\<close> code units below 256, the characters
  \<^verbatim>\<open>\s\<close> matches: TAB, LF, VT, FF, CR, SP and NBSP.
\<close>

definition is_space :: "char \<Rightarrow> bool" where
  "is_space c = ((of_char c :: nat) \<in> {9, 10, 11, 12, 13, 32, 160})"

text \<open>
  \<^verbatim>\<open>Canonicalize\<close> of ECMA-262 for a pattern without the \<^verbatim>\<open>u\<close> flag: the upper
  case of the code unit when that is a single code unit. Below 256 the letters
  \<^verbatim>\<open>a\<close> to \<^verbatim>\<open>z\<close> and the code units 224 to 254 except 247 move down by 32. The
  code units 181 and 255 have their upper case above 255, where no other code unit below
  256 is mapped, so comparing canonical forms is unchanged by leaving them fixed.
\<close>

definition Canonicalize :: "char \<Rightarrow> char" where
  "Canonicalize c =
     (let n = (of_char c :: nat)
      in if (97 \<le> n \<and> n \<le> 122) \<or> (224 \<le> n \<and> n \<le> 254 \<and> n \<noteq> 247)
         then char_of (n - 32) else c)"

definition char_eq :: "bool \<Rightarrow> char \<Rightarrow> char \<Rightarrow> bool" where
  "char_eq ic a b = (if ic then Canonicalize a = Canonicalize b else a = b)"

subsection \<open>Regular expressions: the pattern language\<close>

datatype regex =
    Chr char
  | Space
  | Cls "char list"
  | Empty
  | Seq regex regex
  | Alt regex regex
  | Star regex
  | Opt regex
  | Group regex
  | NonCapturing regex

text \<open>
  The parser reads a pattern left to right with a stack of open groups. A frame holds the
  finished alternatives of its disjunction, the terms of the alternative being read (most
  recent first), whether the most recent term may still take a quantifier, and whether
  the group the frame was opened for captures.

  The fragment: pattern characters, the identity escapes of the syntax characters,
  \<^verbatim>\<open>\s\<close>, capturing groups, the groups \<^verbatim>\<open>(?:\<close> that do not capture,
  \<^verbatim>\<open>|\<close>, the greedy quantifiers \<^verbatim>\<open>*\<close> and \<^verbatim>\<open>?\<close>, and character classes
  that list their members (no range, escape or negation). Everything else is
  \<open>Unmodelled\<close>: the other escapes, the other \<^verbatim>\<open>(?\<close> groups, lazy quantifiers, and
  the characters \<^verbatim>\<open>^ $ . + { } ]\<close>. Within the fragment the syntax errors are those of
  ECMA-262: an unmatched \<^verbatim>\<open>)\<close>, an unterminated group or class, a quantifier with
  nothing to repeat, a backslash or \<^verbatim>\<open>(?\<close> at the end of the pattern.
\<close>

record frame =
  alts :: "regex list"
  terms :: "regex list"
  quantifiable :: bool
  capturing :: bool

definition empty_frame :: frame where
  "empty_frame = \<lparr>alts = [], terms = [], quantifiable = False, capturing = True\<rparr>"

definition non_capturing_frame :: frame where
  "non_capturing_frame = \<lparr>alts = [], terms = [], quantifiable = False, capturing = False\<rparr>"

fun seq_of :: "regex list \<Rightarrow> regex" where
  "seq_of [] = Empty"
| "seq_of [t] = t"
| "seq_of (t # ts) = Seq t (seq_of ts)"

fun alt_of :: "regex list \<Rightarrow> regex" where
  "alt_of [] = Empty"
| "alt_of [a] = a"
| "alt_of (a # as) = Alt a (alt_of as)"

definition alternative :: "frame \<Rightarrow> regex" where
  "alternative f = seq_of (rev (terms f))"

definition disjunction :: "frame \<Rightarrow> regex" where
  "disjunction f = alt_of (alts f @ [alternative f])"

definition close_group :: "frame \<Rightarrow> regex" where
  "close_group f = (if capturing f then Group (disjunction f) else NonCapturing (disjunction f))"

definition push_atom :: "regex \<Rightarrow> frame \<Rightarrow> frame" where
  "push_atom a f = f\<lparr>terms := a # terms f, quantifiable := True\<rparr>"

definition syntax_chars :: "char list" where
  "syntax_chars = backslash # ''^$.*+?()[]{}|/''"

fun parse :: "char list option \<Rightarrow> frame list \<Rightarrow> string \<Rightarrow> error + regex" where
  "parse cls st [] =
     (case cls of
        Some body \<Rightarrow> Inl SyntaxError
      | None \<Rightarrow> (case st of [f] \<Rightarrow> Inr (disjunction f) | _ \<Rightarrow> Inl SyntaxError))"
| "parse (Some body) st (c # cs) =
     (case st of
        [] \<Rightarrow> Inl SyntaxError
      | f # fs \<Rightarrow>
          if c = CHR '']'' then parse None (push_atom (Cls (rev body)) f # fs) cs
          else if c = backslash \<or> c = CHR ''-'' \<or> (c = CHR ''^'' \<and> body = [])
          then Inl Unmodelled
          else parse (Some (c # body)) st cs)"
| "parse None st (c # cs) =
     (case st of
        [] \<Rightarrow> Inl SyntaxError
      | f # fs \<Rightarrow>
          if c = CHR ''('' then
            (case cs of
               [] \<Rightarrow> parse None (empty_frame # f # fs) cs
             | d # ds \<Rightarrow>
                 if d = CHR ''?'' then
                   (case ds of
                      [] \<Rightarrow> Inl SyntaxError
                    | e # es \<Rightarrow>
                        if e = CHR '':'' then parse None (non_capturing_frame # f # fs) es
                        else Inl Unmodelled)
                 else parse None (empty_frame # f # fs) cs)
          else if c = CHR '')'' then
            (case fs of
               [] \<Rightarrow> Inl SyntaxError
             | g # gs \<Rightarrow> parse None (push_atom (close_group f) g # gs) cs)
          else if c = CHR ''|'' then
            parse None
              (f\<lparr>alts := alts f @ [alternative f], terms := [], quantifiable := False\<rparr> # fs)
              cs
          else if c = CHR ''*'' \<or> c = CHR ''?'' then
            (case terms f of
               [] \<Rightarrow> Inl SyntaxError
             | t # ts \<Rightarrow>
                 if quantifiable f then
                   parse None
                     (f\<lparr>terms := (if c = CHR ''*'' then Star t else Opt t) # ts,
                        quantifiable := False\<rparr> # fs)
                     cs
                 else if c = CHR ''?'' then Inl Unmodelled
                 else Inl SyntaxError)
          else if c = backslash then
            (case cs of
               [] \<Rightarrow> Inl SyntaxError
             | d # ds \<Rightarrow>
                 if d \<in> set syntax_chars then parse None (push_atom (Chr d) f # fs) ds
                 else if d = CHR ''s'' then parse None (push_atom Space f # fs) ds
                 else Inl Unmodelled)
          else if c = CHR ''['' then parse (Some []) st cs
          else if c \<in> set ''^$.+{}]'' then Inl Unmodelled
          else parse None (push_atom (Chr c) f # fs) cs)"

text \<open>
  A compiled expression: the pattern and the two flags the component uses. The
  \<^verbatim>\<open>lastIndex\<close> property is the only mutable part of a \<^verbatim>\<open>RegExp\<close>; the
  functions below take it and return it.
\<close>

record regexp =
  pattern :: regex
  global :: bool
  ignoreCase :: bool

definition RegExp_new :: "string \<Rightarrow> string \<Rightarrow> error + regexp" where
  "RegExp_new source flags =
     (case parse None [empty_frame] source of
        Inl e \<Rightarrow> Inl e
      | Inr r \<Rightarrow>
          Inr \<lparr>pattern = r, global = (CHR ''g'' \<in> set flags),
               ignoreCase = (CHR ''i'' \<in> set flags)\<rparr>)"

subsection \<open>Regular expressions: matching\<close>

text \<open>
  The backtracking matcher of ECMA-262, as the list of the end indices of all matches of
  \<open>r\<close> in \<open>s\<close> that start at \<open>i\<close>, in the order in which backtracking finds them;
  the match the engine reports is the first one. A greedy quantifier tries another
  iteration before it tries to stop, and rejects an iteration that matched the empty
  string. The test \<open>e \<le> length s\<close> in the \<open>Star\<close> equation always holds (lemma
  \<open>ends_bounds\<close>); it is there for the termination proof.
\<close>

function ends :: "bool \<Rightarrow> regex \<Rightarrow> string \<Rightarrow> nat \<Rightarrow> nat list" where
  "ends ic (Chr c) s i = (if i < length s \<and> char_eq ic (s ! i) c then [Suc i] else [])"
| "ends ic Space s i = (if i < length s \<and> is_space (s ! i) then [Suc i] else [])"
| "ends ic (Cls cs) s i =
     (if i < length s \<and> (\<exists>c \<in> set cs. char_eq ic (s ! i) c) then [Suc i] else [])"
| "ends ic Empty s i = [i]"
| "ends ic (Seq r1 r2) s i = concat (map (ends ic r2 s) (ends ic r1 s i))"
| "ends ic (Alt r1 r2) s i = ends ic r1 s i @ ends ic r2 s i"
| "ends ic (Opt r) s i = filter (\<lambda>e. e \<noteq> i) (ends ic r s i) @ [i]"
| "ends ic (Star r) s i =
     concat (map (\<lambda>e. if i < e \<and> e \<le> length s then ends ic (Star r) s e else [])
                 (ends ic r s i)) @ [i]"
| "ends ic (Group r) s i = ends ic r s i"
| "ends ic (NonCapturing r) s i = ends ic r s i"
  by pat_completeness auto
termination
  by (relation "measures [\<lambda>(ic, r, s, i). size r, \<lambda>(ic, r, s, i). length s - i]") auto

definition regex_match :: "regexp \<Rightarrow> string \<Rightarrow> nat \<Rightarrow> nat option" where
  "regex_match re s i =
     (case ends (ignoreCase re) (pattern re) s i of [] \<Rightarrow> None | e # es \<Rightarrow> Some e)"

declare ends.simps(8) [simp del]

lemma ends_bounds:
  "e \<in> set (ends ic r s i) \<Longrightarrow> i \<le> length s \<Longrightarrow> i \<le> e \<and> e \<le> length s"
proof (induction ic r s i arbitrary: e rule: ends.induct)
  case (1 ic c s i)
  then show ?case by (simp split: if_splits)
next
  case (2 ic s i)
  then show ?case by (simp split: if_splits)
next
  case (3 ic cs s i)
  then show ?case by (simp split: if_splits)
next
  case (4 ic s i)
  then show ?case by simp
next
  case (5 ic r1 r2 s i)
  from "5.prems"(1) obtain e1 where e1: "e1 \<in> set (ends ic r1 s i)" "e \<in> set (ends ic r2 s e1)"
    by auto
  from "5.IH"(1) [OF e1(1) "5.prems"(2)] have b1: "i \<le> e1" "e1 \<le> length s"
    by simp_all
  from "5.IH"(2) [OF e1(1) e1(2) b1(2)] b1 show ?case
    by simp
next
  case (6 ic r1 r2 s i)
  then show ?case by auto
next
  case (7 ic r s i)
  then show ?case by auto
next
  case (8 ic r s i)
  show ?case
  proof (cases "e = i")
    case True
    with "8.prems" show ?thesis by simp
  next
    case False
    with "8.prems"(1) obtain e1 where e1: "e1 \<in> set (ends ic r s i)" "i < e1" "e1 \<le> length s"
      "e \<in> set (ends ic (Star r) s e1)"
      by (subst (asm) ends.simps(8)) (auto split: if_splits)
    from "8.IH"(2) [OF e1(1) _ e1(4) e1(3)] e1(2,3) show ?thesis
      by simp
  qed
next
  case (9 ic r s i)
  then show ?case by simp
next
  case (10 ic r s i)
  then show ?case by simp
qed

lemma regex_match_bounds:
  "regex_match re s i = Some e \<Longrightarrow> i \<le> length s \<Longrightarrow> i \<le> e \<and> e \<le> length s"
proof -
  assume m: "regex_match re s i = Some e" and i: "i \<le> length s"
  from m have "e \<in> set (ends (ignoreCase re) (pattern re) s i)"
    unfolding regex_match_def by (auto split: list.splits)
  from ends_bounds [OF this i] show ?thesis .
qed

subsection \<open>Regular expressions: \<^verbatim>\<open>test\<close> and \<^verbatim>\<open>split\<close>\<close>

text \<open>
  \<^verbatim>\<open>RegExpBuiltinExec\<close>: the first index from \<open>i\<close> on at which the expression
  matches, as the end index of that match; no match once the index passes the end of the
  string.
\<close>

function search :: "regexp \<Rightarrow> string \<Rightarrow> nat \<Rightarrow> nat option" where
  "search re s i =
     (if length s < i then None
      else case regex_match re s i of
             Some e \<Rightarrow> Some e
           | None \<Rightarrow> search re s (Suc i))"
  by pat_completeness auto
termination
  by (relation "measure (\<lambda>(re, s, i). Suc (length s) - i)") auto

declare search.simps [simp del]

text \<open>
  \<^verbatim>\<open>regex.test(s)\<close>, from the value of \<^verbatim>\<open>lastIndex\<close> to the result and the new
  value of \<^verbatim>\<open>lastIndex\<close>. A global expression starts at \<^verbatim>\<open>lastIndex\<close>, stores the
  end of the match there and resets it to 0 when there is no match; an expression that
  is not global starts at 0 and leaves \<^verbatim>\<open>lastIndex\<close> alone.
\<close>

definition RegExp_test :: "regexp \<Rightarrow> nat \<Rightarrow> string \<Rightarrow> bool \<times> nat" where
  "RegExp_test re lastIndex s =
     (if global re then
        (case search re s lastIndex of None \<Rightarrow> (False, 0) | Some e \<Rightarrow> (True, e))
      else
        (case search re s 0 of None \<Rightarrow> (False, lastIndex) | Some e \<Rightarrow> (True, lastIndex)))"

definition substring :: "string \<Rightarrow> nat \<Rightarrow> nat \<Rightarrow> string" where
  "substring S p q = take (q - p) (drop p S)"

fun groups :: "regex \<Rightarrow> nat" where
  "groups (Seq r1 r2) = groups r1 + groups r2"
| "groups (Alt r1 r2) = groups r1 + groups r2"
| "groups (Star r) = groups r"
| "groups (Opt r) = groups r"
| "groups (Group r) = Suc (groups r)"
| "groups (NonCapturing r) = groups r"
| "groups r = 0"

text \<open>
  \<^verbatim>\<open>split\<close> puts the captures of every match between the pieces. The matcher above
  does not record captures, so the embedding covers the two cases in which they are known
  from the match itself: a pattern that is one capturing group around a pattern without
  capturing groups, whose only capture is the whole match (\<open>Inr True\<close>), and a pattern
  without capturing groups, which has no capture (\<open>Inr False\<close>): then the matched text
  is in none of the pieces.
\<close>

definition captures_whole_match :: "regexp \<Rightarrow> error + bool" where
  "captures_whole_match re =
     (case pattern re of
        Group r \<Rightarrow> if groups r = 0 then Inr True else Inl Unmodelled
      | r \<Rightarrow> if groups r = 0 then Inr False else Inl Unmodelled)"

text \<open>
  The loop of \<^verbatim>\<open>RegExp.prototype[Symbol.split]\<close>: \<open>p\<close> is the end of the last piece
  taken, \<open>q\<close> the index at which a match is tried. A match that ends at \<open>p\<close> is
  skipped.
\<close>

function split_loop :: "regexp \<Rightarrow> bool \<Rightarrow> string \<Rightarrow> nat \<Rightarrow> nat \<Rightarrow> string list" where
  "split_loop re whole S p q =
     (if length S \<le> q then [substring S p (length S)]
      else case regex_match re S q of
             None \<Rightarrow> split_loop re whole S p (Suc q)
           | Some lastIndex \<Rightarrow>
               (let e = min lastIndex (length S)
                in if e = p then split_loop re whole S p (Suc q)
                   else substring S p q # (if whole then [substring S q e] else [])
                        @ split_loop re whole S e e))"
  by pat_completeness auto
termination
proof (relation "measure (\<lambda>(re, whole, S, p, q). 2 * (length S - q) + (if p = q then 0 else 1))",
    goal_cases)
  case 1
  show ?case by simp
next
  case (2 re whole S p q)
  then show ?case by (auto split: if_splits)
next
  case (3 re whole S p q lastIndex e)
  then show ?case by (auto split: if_splits)
next
  case (4 re whole S p q lastIndex e)
  from 4(2) 4(1) have "q \<le> lastIndex"
    using regex_match_bounds [of re S q lastIndex] by simp
  with 4 show ?case by (auto simp: min_def split: if_splits)
qed

declare split_loop.simps [simp del]

definition String_split :: "string \<Rightarrow> regexp \<Rightarrow> error + string list" where
  "String_split S re =
     (case captures_whole_match re of
        Inl e \<Rightarrow> Inl e
      | Inr whole \<Rightarrow>
          Inr (if S = [] then (case regex_match re S 0 of None \<Rightarrow> [S] | Some e \<Rightarrow> [])
               else split_loop re whole S 0 0))"

text \<open>\<^verbatim>\<open>sql.split('\n')\<close>: the pieces between the line feeds, at least one.\<close>

fun split_lines :: "string \<Rightarrow> string list" where
  "split_lines [] = [[]]"
| "split_lines (c # cs) =
     (if c = newline then [] # split_lines cs
      else (case split_lines cs of
              [] \<Rightarrow> [[c]]
            | l # ls \<Rightarrow> (c # l) # ls))"

fun join :: "string \<Rightarrow> string list \<Rightarrow> string" where
  "join sep [] = []"
| "join sep [x] = x"
| "join sep (x # xs) = x @ sep @ join sep xs"

text \<open>
  \<^verbatim>\<open>s.replace(/c/g, by)\<close> for a pattern that matches single characters and a
  replacement without \<^verbatim>\<open>$\<close>.
\<close>

definition replace_all :: "(char \<Rightarrow> bool) \<Rightarrow> string \<Rightarrow> string \<Rightarrow> string" where
  "replace_all matches by s = concat (map (\<lambda>c. if matches c then by else [c]) s)"

subsection \<open>lodash \<^verbatim>\<open>groupBy\<close> and \<^verbatim>\<open>Object.keys\<close>\<close>

text \<open>
  \<^verbatim>\<open>groupBy\<close> collects the elements under the key the iteratee gives them, the keys in
  the order in which they first occur and the elements of a group in the order of the
  collection. The iteratee may throw. The keys of this component are line numbers; a key
  stands for the property name that is the number's decimal string.
\<close>

fun add_to_group :: "int \<Rightarrow> 'a \<Rightarrow> (int \<times> 'a list) list \<Rightarrow> (int \<times> 'a list) list" where
  "add_to_group k x [] = [(k, [x])]"
| "add_to_group k x ((k', xs) # g) =
     (if k = k' then (k', xs @ [x]) # g else (k', xs) # add_to_group k x g)"

fun groupBy_from ::
  "(int \<times> 'a list) list \<Rightarrow> 'a list \<Rightarrow> ('a \<Rightarrow> error + int) \<Rightarrow> error + (int \<times> 'a list) list"
where
  "groupBy_from g [] iteratee = Inr g"
| "groupBy_from g (x # xs) iteratee =
     (case iteratee x of
        Inl e \<Rightarrow> Inl e
      | Inr k \<Rightarrow> groupBy_from (add_to_group k x g) xs iteratee)"

definition groupBy :: "'a list \<Rightarrow> ('a \<Rightarrow> error + int) \<Rightarrow> error + (int \<times> 'a list) list" where
  "groupBy collection iteratee = groupBy_from [] collection iteratee"

text \<open>
  \<^verbatim>\<open>Object.keys\<close> lists the property names that are array indices (the integers from
  0 to \<open>2\<^sup>3\<^sup>2 - 2\<close>) first, in ascending order, and the other names after them in
  the order in which they were created.
\<close>

definition is_array_index :: "int \<Rightarrow> bool" where
  "is_array_index k = (0 \<le> k \<and> k < 2 ^ 32 - 1)"

definition Object_keys :: "(int \<times> 'a) list \<Rightarrow> int list" where
  "Object_keys g =
     sort (filter is_array_index (map fst g)) @ filter (\<lambda>k. \<not> is_array_index k) (map fst g)"

subsection \<open>The component\<close>

text \<open>
  \<^verbatim>\<open>optimizedSnippet\<close>: three global replacements, one after the other.
\<close>

definition optimizedSnippet :: "string \<Rightarrow> string" where
  "optimizedSnippet snippet =
     replace_all is_space (backslash # ''s*'')
       (replace_all (\<lambda>c. c = CHR '')'') (backslash # '')?'')
          (replace_all (\<lambda>c. c = CHR ''('') (backslash # ''(?'') snippet))"

definition createSnippetsRegex :: "string list \<Rightarrow> error + regexp" where
  "createSnippetsRegex snippets = RegExp_new (''('' @ join ''|'' snippets @ '')'') ''gi''"

text \<open>
  \<^verbatim>\<open>printUnmatchedReferences\<close>: the warning, when there is one, with the references
  that are in no list of matched references.
\<close>

definition printUnmatchedReferences ::
  "reference list \<Rightarrow> reference list list \<Rightarrow> reference list option" where
  "printUnmatchedReferences references referenceMatches =
     (let unmatchedReferences = filter (\<lambda>r. r \<notin> set (concat referenceMatches)) references
      in if length unmatchedReferences > 0 then Some unmatchedReferences else None)"

text \<open>\<^verbatim>\<open>reference.sqlLocation.line\<close>: a \<^verbatim>\<open>TypeError\<close> when the location is missing.\<close>

definition sqlLocation_line :: "reference \<Rightarrow> error + int" where
  "sqlLocation_line r = (case sqlLocation r of None \<Rightarrow> Inl TypeError | Some l \<Rightarrow> Inr l)"

text \<open>
  \<^verbatim>\<open>new RegExp(reference.sqlSnippet).test(part)\<close>: the snippet as it is, as a pattern
  without flags.
\<close>

definition snippet_test :: "reference \<Rightarrow> string \<Rightarrow> error + bool" where
  "snippet_test r part =
     (case RegExp_new (sqlSnippet r) [] of
        Inl e \<Rightarrow> Inl e
      | Inr re \<Rightarrow> Inr (fst (RegExp_test re 0 part)))"

text \<open>\<^verbatim>\<open>lineReferences.filter\<close> with a callback that may throw.\<close>

fun filter_references ::
  "(reference \<Rightarrow> error + bool) \<Rightarrow> reference list \<Rightarrow> error + reference list" where
  "filter_references test [] = Inr []"
| "filter_references test (r # rs) =
     (case test r of
        Inl e \<Rightarrow> Inl e
      | Inr b \<Rightarrow>
          (case filter_references test rs of
             Inl e \<Rightarrow> Inl e
           | Inr ms \<Rightarrow> Inr (if b then r # ms else ms)))"

text \<open>
  \<^verbatim>\<open>parts.map\<close>: the callback runs on the pieces from left to right; it reads and
  writes the \<^verbatim>\<open>lastIndex\<close> of the line's expression (which is global) and pushes the
  matched references of every marked piece on \<^verbatim>\<open>referenceMatches\<close>.
\<close>

fun map_parts ::
  "(reference \<Rightarrow> string \<Rightarrow> error + bool) \<Rightarrow> regexp \<Rightarrow> reference list \<Rightarrow> string list \<Rightarrow>
   nat \<Rightarrow> reference list list \<Rightarrow> error + node list \<times> reference list list" where
  "map_parts test regex lineReferences [] lastIndex referenceMatches =
     Inr ([], referenceMatches)"
| "map_parts test regex lineReferences (part # parts) lastIndex referenceMatches =
     (case RegExp_test regex lastIndex part of
        (True, lastIndex') \<Rightarrow>
          (case filter_references (\<lambda>r. test r part) lineReferences of
             Inl e \<Rightarrow> Inl e
           | Inr matchedReferences \<Rightarrow>
               (case map_parts test regex lineReferences parts lastIndex'
                       (referenceMatches @ [matchedReferences]) of
                  Inl e \<Rightarrow> Inl e
                | Inr (nodes, ms) \<Rightarrow> Inr (Mark part matchedReferences # nodes, ms)))
      | (False, lastIndex') \<Rightarrow>
          (case map_parts test regex lineReferences parts lastIndex' referenceMatches of
             Inl e \<Rightarrow> Inl e
           | Inr (nodes, ms) \<Rightarrow> Inr (Span part # nodes, ms)))"

text \<open>
  The body of the \<^verbatim>\<open>forEach\<close> over the keys of the groups, for the key \<open>line\<close>:
  from \<^verbatim>\<open>highlights\<close> and \<^verbatim>\<open>referenceMatches\<close> to their new values.
  \<^verbatim>\<open>sqlArray[lineIndex]\<close> is \<^verbatim>\<open>undefined\<close> outside the array, and calling
  \<^verbatim>\<open>split\<close> on it is a \<^verbatim>\<open>TypeError\<close>.
\<close>

definition highlight_line ::
  "string list \<Rightarrow> (int \<times> reference list) list \<Rightarrow> (nat \<rightharpoonup> node list) \<times> reference list list \<Rightarrow>
   int \<Rightarrow> error + (nat \<rightharpoonup> node list) \<times> reference list list" where
  "highlight_line sqlArray referenceGroups state line =
     (let lineIndex = line - 1 in
      case map_of referenceGroups line of
        None \<Rightarrow> Inl TypeError
      | Some lineReferences \<Rightarrow>
          (case createSnippetsRegex (map (\<lambda>r. optimizedSnippet (sqlSnippet r)) lineReferences) of
             Inl e \<Rightarrow> Inl e
           | Inr regex \<Rightarrow>
               if lineIndex < 0 \<or> int (length sqlArray) \<le> lineIndex then Inl TypeError
               else
                 (case String_split (sqlArray ! nat lineIndex) regex of
                    Inl e \<Rightarrow> Inl e
                  | Inr parts \<Rightarrow>
                      (case map_parts snippet_test regex lineReferences parts 0 (snd state) of
                         Inl e \<Rightarrow> Inl e
                       | Inr (nodes, ms) \<Rightarrow> Inr ((fst state)(nat lineIndex \<mapsto> nodes), ms)))))"

fun forEach :: "('s \<Rightarrow> 'k \<Rightarrow> error + 's) \<Rightarrow> 'k list \<Rightarrow> 's \<Rightarrow> error + 's" where
  "forEach body [] state = Inr state"
| "forEach body (k # ks) state =
     (case body state k of
        Inl e \<Rightarrow> Inl e
      | Inr state' \<Rightarrow> forEach body ks state')"

text \<open>
  \<^verbatim>\<open>SQLHighlight\<close>, with \<^verbatim>\<open>env.isDevelopment\<close> as its first argument. The result
  is the list of the \<^verbatim>\<open><div>\<close> elements of the lines and the warning, if one was
  printed.
\<close>

definition SQLHighlight :: "bool \<Rightarrow> string \<Rightarrow> reference list \<Rightarrow> error + rendered" where
  "SQLHighlight isDevelopment sql references =
     (let sqlArray = split_lines sql;
          filteredReferences = filter (\<lambda>r. sqlLocation r \<noteq> None) references
      in case groupBy filteredReferences sqlLocation_line of
           Inl e \<Rightarrow> Inl e
         | Inr referenceGroups \<Rightarrow>
             (case forEach (highlight_line sqlArray referenceGroups)
                     (Object_keys referenceGroups) (Map.empty, []) of
                Inl e \<Rightarrow> Inl e
              | Inr (highlights, referenceMatches) \<Rightarrow>
                  Inr \<lparr>content =
                         map (\<lambda>(line, index).
                                case highlights index of
                                  Some nodes \<Rightarrow> Highlights nodes
                                | None \<Rightarrow> Line line)
                             (zip sqlArray [0 ..< length sqlArray]),
                       warned =
                         (if isDevelopment
                          then printUnmatchedReferences references referenceMatches
                          else None)\<rparr>))"

subsection \<open>The earlier variant of the component\<close>

text \<open>
  The variant groups all the references, without filtering them first, and writes the
  highlighted lines into a copy \<^verbatim>\<open>result\<close> of the array of lines. Its test of a
  piece is \<^verbatim>\<open>new RegExp(snippet).test(part)\<close> with the reference itself for
  \<^verbatim>\<open>snippet\<close>; the pattern is then the string of the object. It prints no warning; its
  \<^verbatim>\<open>console.log\<close> calls are left out.
\<close>

definition object_toString :: string where
  "object_toString = ''[object Object]''"

definition object_test :: "reference \<Rightarrow> string \<Rightarrow> error + bool" where
  "object_test r part =
     (case RegExp_new object_toString [] of
        Inl e \<Rightarrow> Inl e
      | Inr re \<Rightarrow> Inr (fst (RegExp_test re 0 part)))"

definition highlight_result_line ::
  "(int \<times> reference list) list \<Rightarrow> line_div list \<Rightarrow> int \<Rightarrow> error + line_div list" where
  "highlight_result_line referenceGroups result line =
     (let index = line - 1 in
      case map_of referenceGroups line of
        None \<Rightarrow> Inl TypeError
      | Some lineReferences \<Rightarrow>
          (case RegExp_new
                  (''('' @ join ''|'' (map (\<lambda>r. optimizedSnippet (sqlSnippet r)) lineReferences)
                   @ '')'') ''gi'' of
             Inl e \<Rightarrow> Inl e
           | Inr regex \<Rightarrow>
               if index < 0 \<or> int (length result) \<le> index then Inl TypeError
               else
                 (case result ! nat index of
                    Highlights nodes \<Rightarrow> Inl TypeError
                  | Line l \<Rightarrow>
                      (case String_split l regex of
                         Inl e \<Rightarrow> Inl e
                       | Inr parts \<Rightarrow>
                           (case map_parts object_test regex lineReferences parts 0 [] of
                              Inl e \<Rightarrow> Inl e
                            | Inr (nodes, ms) \<Rightarrow>
                                Inr (result[nat index := Highlights nodes]))))))"

definition SQLHighlight_variant :: "string \<Rightarrow> reference list \<Rightarrow> error + line_div list" where
  "SQLHighlight_variant sql references =
     (let sqlArray = split_lines sql
      in case groupBy references sqlLocation_line of
           Inl e \<Rightarrow> Inl e
         | Inr referenceGroups \<Rightarrow>
             forEach (highlight_result_line referenceGroups)
               (Object_keys referenceGroups) (map Line sqlArray))"

subsection \<open>The snippet pattern as the specification words it\<close>

text \<open>
  The specification gives three rules, applied in this order: every \<^verbatim>\<open>(\<close> becomes an
  optional escaped open parenthesis, every \<^verbatim>\<open>)\<close> an optional escaped close
  parenthesis, every whitespace character zero or more whitespace characters.
\<close>

primrec optional_open_parens :: "string \<Rightarrow> string" where
  "optional_open_parens [] = []"
| "optional_open_parens (c # cs) =
     (if c = CHR ''('' then backslash # ''(?'' else [c]) @ optional_open_parens cs"

primrec optional_close_parens :: "string \<Rightarrow> string" where
  "optional_close_parens [] = []"
| "optional_close_parens (c # cs) =
     (if c = CHR '')'' then backslash # '')?'' else [c]) @ optional_close_parens cs"

primrec any_whitespace :: "string \<Rightarrow> string" where
  "any_whitespace [] = []"
| "any_whitespace (c # cs) =
     (if is_space c then backslash # ''s*'' else [c]) @ any_whitespace cs"

definition spec_pattern :: "string \<Rightarrow> string" where
  "spec_pattern snippet = any_whitespace (optional_close_parens (optional_open_parens snippet))"

text \<open>The same pattern, character by character.\<close>

definition pattern_of_char :: "char \<Rightarrow> string" where
  "pattern_of_char c =
     (if c = CHR ''('' then backslash # ''(?''
      else if c = CHR '')'' then backslash # '')?''
      else if is_space c then backslash # ''s*''
      else [c])"

text \<open>
  The pieces into which the expression built from one snippet splits a text. The snippet
  matches the whole text when the pieces are the text between two empty pieces.
\<close>

definition snippet_pieces :: "string \<Rightarrow> string \<Rightarrow> error + string list" where
  "snippet_pieces snippet text =
     (case createSnippetsRegex [optimizedSnippet snippet] of
        Inl e \<Rightarrow> Inl e
      | Inr regex \<Rightarrow> String_split text regex)"

subsection \<open>Plain snippets\<close>



subsection \<open>Sample references\<close>

definition reference_at :: "int \<Rightarrow> string \<Rightarrow> int \<Rightarrow> reference" where
  "reference_at n snippet line =
     \<lparr>referenceNum = n, ref_type = ''FIELD'', sqlSnippet = snippet, sqlLocation = Some line\<rparr>"

definition reference_without_location :: "int \<Rightarrow> string \<Rightarrow> reference" where
  "reference_without_location n snippet =
     \<lparr>referenceNum = n, ref_type = ''FIELD'', sqlSnippet = snippet, sqlLocation = None\<rparr>"

subsection \<open>Invariants\<close>

text \<open>The capturing groups in the alternatives and terms of a frame.\<close>

definition frame_groups :: "frame \<Rightarrow> nat" where
  "frame_groups f = sum_list (map groups (alts f)) + sum_list (map groups (terms f))"

text \<open>A frame after it has read a term with its quantifier.\<close>

definition push_term :: "regex \<Rightarrow> frame \<Rightarrow> frame" where
  "push_term t f = f\<lparr>terms := t # terms f, quantifiable := False\<rparr>"

text \<open>Every group of \<open>groupBy\<close> holds elements of the collection with the group's key.\<close>

definition grouped :: "('a \<Rightarrow> error + int) \<Rightarrow> 'a set \<Rightarrow> (int \<times> 'a list) list \<Rightarrow> bool" where
  "grouped iteratee A g =
     (\<forall>k xs x. (k, xs) \<in> set g \<longrightarrow> x \<in> set xs \<longrightarrow> x \<in> A \<and> iteratee x = Inr k)"

text \<open>
  What the loop over the lines keeps true of \<^verbatim>\<open>highlights\<close>: the references on the
  nodes of a line are references of that line, and, when the split keeps all of the line,
  the texts of the nodes make up the line.
\<close>

definition highlights_ok ::
  "string list \<Rightarrow> reference set \<Rightarrow> (nat \<rightharpoonup> node list) \<Rightarrow> bool" where
  "highlights_ok sqlArray R highlights =
     (\<forall>i nodes. highlights i = Some nodes \<longrightarrow>
        i < length sqlArray \<and>
        (\<forall>n \<in> set nodes. \<forall>r \<in> set (node_refs n).
           r \<in> R \<and> sqlLocation r = Some (int i + 1)))"

definition texts_ok :: "string list \<Rightarrow> (nat \<rightharpoonup> node list) \<Rightarrow> bool" where
  "texts_ok sqlArray highlights =
     (\<forall>i nodes. highlights i = Some nodes \<longrightarrow> concat (map node_text nodes) = sqlArray ! i)"

section \<open>Properties of the built-ins\<close>

subsection \<open>The pieces of a split make up the string\<close>

lemma substring_chain:
  "p \<le> q \<Longrightarrow> q \<le> e \<Longrightarrow> e \<le> length S \<Longrightarrow>
   substring S p q @ substring S q e @ drop e S = drop p S"
proof -
  assume pq: "p \<le> q" and qe: "q \<le> e" and el: "e \<le> length S"
  have a: "take (e - q) (drop q S) @ drop e S = drop q S"
  proof -
    have "drop e S = drop (e - q) (drop q S)" using qe by simp
    then show ?thesis by (simp only: append_take_drop_id)
  qed
  have b: "take (q - p) (drop p S) @ drop q S = drop p S"
  proof -
    have "drop q S = drop (q - p) (drop p S)" using pq by simp
    then show ?thesis by (simp only: append_take_drop_id)
  qed
  show ?thesis unfolding substring_def using a b by simp
qed

lemma concat_split_loop:
  "whole \<Longrightarrow> p \<le> q \<Longrightarrow> q \<le> length S \<Longrightarrow> concat (split_loop re whole S p q) = drop p S"
proof (induction re whole S p q rule: split_loop.induct)
  case (1 re whole S p q)
  note w = "1.prems"(1) and pq = "1.prems"(2) and ql = "1.prems"(3)
  show ?case
  proof (cases "length S \<le> q")
    case True
    then show ?thesis
      by (subst split_loop.simps) (simp add: substring_def)
  next
    case False
    note notend = False
    show ?thesis
    proof (cases "regex_match re S q")
      case None
      with notend "1.IH"(1) [OF notend None w] pq ql show ?thesis
        by (subst split_loop.simps) simp
    next
      case (Some lastIndex)
      define e where "e = min lastIndex (length S)"
      from regex_match_bounds [OF Some] ql have "q \<le> lastIndex" by simp
      with notend have qe: "q \<le> e" and el: "e \<le> length S" by (simp_all add: e_def)
      show ?thesis
      proof (cases "e = p")
        case True
        with notend Some "1.IH"(2) [OF notend Some e_def True w] pq ql show ?thesis
          by (subst split_loop.simps) (simp add: e_def Let_def)
      next
        case False
        from "1.IH"(3) [OF notend Some e_def False w] el
        have "concat (split_loop re whole S e e) = drop e S" by simp
        with notend Some False w substring_chain [OF pq qe el] show ?thesis
          by (subst split_loop.simps) (simp add: e_def Let_def)
      qed
    qed
  qed
qed

subsection \<open>The snippet pattern\<close>

lemma replace_open:
  "replace_all (\<lambda>c. c = CHR ''('') (backslash # ''(?'') s = optional_open_parens s"
  by (induction s) (simp_all add: replace_all_def)

lemma replace_close:
  "replace_all (\<lambda>c. c = CHR '')'') (backslash # '')?'') s = optional_close_parens s"
  by (induction s) (simp_all add: replace_all_def)

lemma replace_space:
  "replace_all is_space (backslash # ''s*'') s = any_whitespace s"
  by (induction s) (simp_all add: replace_all_def)

lemma optional_close_parens_append:
  "optional_close_parens (a @ b) = optional_close_parens a @ optional_close_parens b"
  by (induction a) simp_all

lemma any_whitespace_append:
  "any_whitespace (a @ b) = any_whitespace a @ any_whitespace b"
  by (induction a) simp_all

lemma spec_pattern_chars: "spec_pattern s = concat (map pattern_of_char s)"
proof (induction s)
  case Nil
  then show ?case by (simp add: spec_pattern_def)
next
  case (Cons c s)
  have "any_whitespace (optional_close_parens (if c = CHR ''('' then backslash # ''(?'' else [c]))
    = pattern_of_char c"
    by (simp add: pattern_of_char_def backslash_def is_space_def)
  with Cons show ?case
    by (simp add: spec_pattern_def optional_close_parens_append any_whitespace_append)
qed

lemma optimizedSnippet_chars: "optimizedSnippet s = concat (map pattern_of_char s)"
  using spec_pattern_chars [of s]
  by (simp add: optimizedSnippet_def spec_pattern_def replace_open replace_close replace_space)

subsection \<open>Counting capturing groups\<close>





subsection \<open>The expression of plain snippets\<close>

text \<open>
  One step of the parser on each of the patterns \<open>optimizedSnippet\<close> writes for a
  character of a plain snippet.
\<close>

lemma frame_groups_push_term [simp]:
  "frame_groups (push_term t f) = groups t + frame_groups f"
  by (simp add: frame_groups_def push_term_def)

lemma capturing_push_term [simp]: "capturing (push_term t f) = capturing f"
  by (simp add: push_term_def)










lemma frame_groups_push_atom_Chr [simp]:
  "frame_groups (push_atom (Chr c) f) = frame_groups f"
  by (simp add: frame_groups_def push_atom_def)

lemma capturing_push_atom [simp]: "capturing (push_atom a f) = capturing f"
  by (simp add: push_atom_def)

lemma is_space_not_syntax: "is_space c \<Longrightarrow> c \<noteq> CHR ''('' \<and> c \<noteq> CHR '')''"
  by (auto simp: is_space_def)










section \<open>Properties of the component\<close>

lemma filter_references_subset:
  "filter_references test rs = Inr ms \<Longrightarrow> set ms \<subseteq> set rs"
proof (induction rs arbitrary: ms)
  case Nil
  then show ?case by simp
next
  case (Cons r rs)
  then show ?case by (auto split: sum.splits if_splits)
qed

lemma map_parts_nodes:
  "map_parts test regex lineReferences parts lastIndex referenceMatches = Inr (nodes, ms) \<Longrightarrow>
   map node_text nodes = parts \<and> (\<forall>n \<in> set nodes. set (node_refs n) \<subseteq> set lineReferences)"
proof (induction parts arbitrary: lastIndex referenceMatches nodes ms)
  case Nil
  then show ?case by simp
next
  case (Cons part parts)
  obtain b lastIndex' where t: "RegExp_test regex lastIndex part = (b, lastIndex')"
    by (cases "RegExp_test regex lastIndex part")
  show ?case
  proof (cases b)
    case True
    with t Cons.prems obtain matched nodes' where
      f: "filter_references (\<lambda>r. test r part) lineReferences = Inr matched"
      and m: "map_parts test regex lineReferences parts lastIndex' (referenceMatches @ [matched])
              = Inr (nodes', ms)"
      and n: "nodes = Mark part matched # nodes'"
      by (auto split: sum.splits)
    from Cons.IH [OF m] filter_references_subset [OF f] n show ?thesis by simp
  next
    case False
    with t Cons.prems obtain nodes' where
      m: "map_parts test regex lineReferences parts lastIndex' referenceMatches = Inr (nodes', ms)"
      and n: "nodes = Span part # nodes'"
      by (auto split: sum.splits)
    from Cons.IH [OF m] n show ?thesis by simp
  qed
qed

lemma grouped_add:
  "grouped iteratee A g \<Longrightarrow> x \<in> A \<Longrightarrow> iteratee x = Inr k \<Longrightarrow>
   grouped iteratee A (add_to_group k x g)"
proof (induction g)
  case Nil
  then show ?case by (simp add: grouped_def)
next
  case (Cons kxs g)
  obtain k' xs where kxs: "kxs = (k', xs)" by (cases kxs)
  from Cons.prems(1) have g: "grouped iteratee A g"
    by (auto simp: grouped_def)
  from Cons.prems(1) kxs have xs: "\<forall>y \<in> set xs. y \<in> A \<and> iteratee y = Inr k'"
    by (auto simp: grouped_def)
  show ?case
  proof (cases "k = k'")
    case True
    with kxs g xs Cons.prems(2,3) show ?thesis
      by (auto simp: grouped_def)
  next
    case False
    with kxs xs Cons.IH [OF g Cons.prems(2,3)] show ?thesis
      by (auto simp: grouped_def)
  qed
qed

lemma grouped_groupBy_from:
  "groupBy_from g xs iteratee = Inr g' \<Longrightarrow> grouped iteratee A g \<Longrightarrow> set xs \<subseteq> A \<Longrightarrow>
   grouped iteratee A g'"
proof (induction xs arbitrary: g)
  case Nil
  then show ?case by simp
next
  case (Cons x xs)
  from Cons.prems(1) obtain k where k: "iteratee x = Inr k"
    and g': "groupBy_from (add_to_group k x g) xs iteratee = Inr g'"
    by (auto split: sum.splits)
  from Cons.prems(2,3) k have "grouped iteratee A (add_to_group k x g)"
    by (intro grouped_add) simp_all
  from Cons.IH [OF g' this] Cons.prems(3) show ?case by simp
qed

lemma groupBy_group:
  assumes "groupBy xs iteratee = Inr g" and "map_of g k = Some ys" and "y \<in> set ys"
  shows "y \<in> set xs \<and> iteratee y = Inr k"
proof -
  from assms(1) have "grouped iteratee (set xs) g"
    unfolding groupBy_def by (rule grouped_groupBy_from) (simp_all add: grouped_def)
  with map_of_SomeD [OF assms(2)] assms(3) show ?thesis
    by (auto simp: grouped_def split: if_splits)
qed

lemma concat_String_split:
  assumes sp: "String_split S regex = Inr parts"
    and w: "S = [] \<or> captures_whole_match regex = Inr True"
  shows "concat parts = S"
proof (cases "S = []")
  case True
  with sp show ?thesis
    by (auto simp: String_split_def split: sum.splits option.splits)
next
  case False
  with w have "captures_whole_match regex = Inr True" by simp
  with sp False have "parts = split_loop regex True S 0 0"
    by (simp add: String_split_def)
  with concat_split_loop [of True 0 0 S regex] show ?thesis by simp
qed



lemma highlight_line_ok:
  assumes g: "groupBy refs sqlLocation_line = Inr referenceGroups"
    and h: "highlight_line sqlArray referenceGroups state line = Inr state'"
    and ok: "highlights_ok sqlArray (set refs) (fst state)"
  shows "highlights_ok sqlArray (set refs) (fst state')"
proof -
  from h obtain lineReferences regex parts nodes ms where
    lr: "map_of referenceGroups line = Some lineReferences"
    and re: "createSnippetsRegex (map (\<lambda>r. optimizedSnippet (sqlSnippet r)) lineReferences) = Inr regex"
    and lo: "0 \<le> line - 1" and hi: "line - 1 < int (length sqlArray)"
    and sp: "String_split (sqlArray ! nat (line - 1)) regex = Inr parts"
    and mp: "map_parts snippet_test regex lineReferences parts 0 (snd state) = Inr (nodes, ms)"
    and st: "state' = ((fst state)(nat (line - 1) \<mapsto> nodes), ms)"
    by (auto simp: highlight_line_def Let_def split: option.splits sum.splits if_splits)
  from map_parts_nodes [OF mp]
  have sub: "\<forall>n \<in> set nodes. set (node_refs n) \<subseteq> set lineReferences"
    by simp
  have r: "\<forall>n \<in> set nodes. \<forall>r \<in> set (node_refs n).
      r \<in> set refs \<and> sqlLocation r = Some (int (nat (line - 1)) + 1)"
  proof (intro ballI)
    fix n r assume "n \<in> set nodes" "r \<in> set (node_refs n)"
    with sub have "r \<in> set lineReferences" by auto
    from groupBy_group [OF g lr this] lo
    show "r \<in> set refs \<and> sqlLocation r = Some (int (nat (line - 1)) + 1)"
      by (auto simp: sqlLocation_line_def split: option.splits)
  qed
  from lo hi have i: "nat (line - 1) < length sqlArray" by simp
  from ok r i show ?thesis
    unfolding st highlights_ok_def by (simp del: One_nat_def)
qed

lemma highlight_line_texts:
  assumes g: "groupBy refs sqlLocation_line = Inr referenceGroups"
    and h: "highlight_line sqlArray referenceGroups state line = Inr state'"
    and ok: "texts_ok sqlArray (fst state)"
    and w: "\<And>lineReferences regex.
      set lineReferences \<subseteq> set refs \<Longrightarrow>
      createSnippetsRegex (map (\<lambda>r. optimizedSnippet (sqlSnippet r)) lineReferences) = Inr regex \<Longrightarrow>
      (\<forall>l \<in> set sqlArray. l = []) \<or> captures_whole_match regex = Inr True"
  shows "texts_ok sqlArray (fst state')"
proof -
  from h obtain lineReferences regex parts nodes ms where
    lr: "map_of referenceGroups line = Some lineReferences"
    and re: "createSnippetsRegex (map (\<lambda>r. optimizedSnippet (sqlSnippet r)) lineReferences) = Inr regex"
    and lo: "0 \<le> line - 1" and hi: "line - 1 < int (length sqlArray)"
    and sp: "String_split (sqlArray ! nat (line - 1)) regex = Inr parts"
    and mp: "map_parts snippet_test regex lineReferences parts 0 (snd state) = Inr (nodes, ms)"
    and st: "state' = ((fst state)(nat (line - 1) \<mapsto> nodes), ms)"
    by (auto simp: highlight_line_def Let_def split: option.splits sum.splits if_splits)
  from map_parts_nodes [OF mp] have texts: "map node_text nodes = parts"
    by simp
  from groupBy_group [OF g lr] have "set lineReferences \<subseteq> set refs"
    by blast
  from w [OF this re] lo hi
  have "sqlArray ! nat (line - 1) = [] \<or> captures_whole_match regex = Inr True"
    by auto
  from concat_String_split [OF sp this] texts
  have "concat (map node_text nodes) = sqlArray ! nat (line - 1)" by simp
  with ok show ?thesis
    unfolding st texts_ok_def by simp
qed

lemma forEach_highlights_ok:
  assumes g: "groupBy refs sqlLocation_line = Inr referenceGroups"
  shows "forEach (highlight_line sqlArray referenceGroups) keys state = Inr state' \<Longrightarrow>
    highlights_ok sqlArray (set refs) (fst state) \<Longrightarrow>
    highlights_ok sqlArray (set refs) (fst state')"
proof (induction keys arbitrary: state)
  case Nil
  then show ?case by simp
next
  case (Cons line keys)
  from Cons.prems(1) obtain state1 where
    h: "highlight_line sqlArray referenceGroups state line = Inr state1"
    and f: "forEach (highlight_line sqlArray referenceGroups) keys state1 = Inr state'"
    by (auto split: sum.splits)
  from Cons.IH [OF f highlight_line_ok [OF g h Cons.prems(2)]] show ?case .
qed

lemma forEach_texts_ok:
  assumes g: "groupBy refs sqlLocation_line = Inr referenceGroups"
    and w: "\<And>lineReferences regex.
      set lineReferences \<subseteq> set refs \<Longrightarrow>
      createSnippetsRegex (map (\<lambda>r. optimizedSnippet (sqlSnippet r)) lineReferences) = Inr regex \<Longrightarrow>
      (\<forall>l \<in> set sqlArray. l = []) \<or> captures_whole_match regex = Inr True"
  shows "forEach (highlight_line sqlArray referenceGroups) keys state = Inr state' \<Longrightarrow>
    texts_ok sqlArray (fst state) \<Longrightarrow> texts_ok sqlArray (fst state')"
proof (induction keys arbitrary: state)
  case Nil
  then show ?case by simp
next
  case (Cons line keys)
  from Cons.prems(1) obtain state1 where
    h: "highlight_line sqlArray referenceGroups state line = Inr state1"
    and f: "forEach (highlight_line sqlArray referenceGroups) keys state1 = Inr state'"
    by (auto split: sum.splits)
  from Cons.IH [OF f highlight_line_texts [OF g h Cons.prems(2) w]] show ?case .
qed

text \<open>What \<open>SQLHighlight\<close> returns, when it returns.\<close>

lemma SQLHighlight_Inr:
  assumes "SQLHighlight isDevelopment sql references = Inr out"
  obtains referenceGroups highlights referenceMatches where
    "groupBy (filter (\<lambda>r. sqlLocation r \<noteq> None) references) sqlLocation_line = Inr referenceGroups"
    "forEach (highlight_line (split_lines sql) referenceGroups)
       (Object_keys referenceGroups) (Map.empty, []) = Inr (highlights, referenceMatches)"
    "content out =
       map (\<lambda>(line, index). case highlights index of
                               Some nodes \<Rightarrow> Highlights nodes
                             | None \<Rightarrow> Line line)
           (zip (split_lines sql) [0 ..< length (split_lines sql)])"
  using assms
  by (auto simp: SQLHighlight_def Let_def split: sum.splits prod.splits)

lemma SQLHighlight_length:
  assumes "SQLHighlight isDevelopment sql references = Inr out"
  shows "length (content out) = length (split_lines sql)"
  using assms by (rule SQLHighlight_Inr) simp

lemma SQLHighlight_refs:
  assumes "SQLHighlight isDevelopment sql references = Inr out"
    and i: "i < length (split_lines sql)"
    and n: "n \<in> set (segments (content out ! i))"
    and r: "r \<in> set (node_refs n)"
  shows "r \<in> set references \<and> sqlLocation r = Some (int i + 1)"
proof -
  let ?refs = "filter (\<lambda>r. sqlLocation r \<noteq> None) references"
  from assms(1) obtain referenceGroups highlights referenceMatches where
    g: "groupBy ?refs sqlLocation_line = Inr referenceGroups"
    and f: "forEach (highlight_line (split_lines sql) referenceGroups)
       (Object_keys referenceGroups) (Map.empty, []) = Inr (highlights, referenceMatches)"
    and c: "content out =
       map (\<lambda>(line, index). case highlights index of
                               Some nodes \<Rightarrow> Highlights nodes
                             | None \<Rightarrow> Line line)
           (zip (split_lines sql) [0 ..< length (split_lines sql)])"
    by (rule SQLHighlight_Inr)
  have "highlights_ok (split_lines sql) (set ?refs) (fst (Map.empty, []))"
    by (simp add: highlights_ok_def)
  from forEach_highlights_ok [OF g f this]
  have ok: "highlights_ok (split_lines sql) (set ?refs) highlights" by simp
  from c i have ci: "content out ! i =
      (case highlights i of Some nodes \<Rightarrow> Highlights nodes | None \<Rightarrow> Line (split_lines sql ! i))"
    by simp
  with ok n r show ?thesis
    by (cases "highlights i") (auto simp: highlights_ok_def)
qed

lemma SQLHighlight_texts:
  assumes h: "SQLHighlight isDevelopment sql references = Inr out"
    and w: "\<And>lineReferences regex.
      set lineReferences \<subseteq> set references \<Longrightarrow>
      createSnippetsRegex (map (\<lambda>r. optimizedSnippet (sqlSnippet r)) lineReferences) = Inr regex \<Longrightarrow>
      (\<forall>l \<in> set (split_lines sql). l = []) \<or> captures_whole_match regex = Inr True"
  shows "map div_text (content out) = split_lines sql"
proof -
  let ?refs = "filter (\<lambda>r. sqlLocation r \<noteq> None) references"
  from h obtain referenceGroups highlights referenceMatches where
    g: "groupBy ?refs sqlLocation_line = Inr referenceGroups"
    and f: "forEach (highlight_line (split_lines sql) referenceGroups)
       (Object_keys referenceGroups) (Map.empty, []) = Inr (highlights, referenceMatches)"
    and c: "content out =
       map (\<lambda>(line, index). case highlights index of
                               Some nodes \<Rightarrow> Highlights nodes
                             | None \<Rightarrow> Line line)
           (zip (split_lines sql) [0 ..< length (split_lines sql)])"
    by (rule SQLHighlight_Inr)
  have w': "(\<forall>l \<in> set (split_lines sql). l = []) \<or> captures_whole_match regex = Inr True"
    if "set lineReferences \<subseteq> set ?refs"
      and "createSnippetsRegex (map (\<lambda>r. optimizedSnippet (sqlSnippet r)) lineReferences) = Inr regex"
    for lineReferences regex
    using that by (intro w) auto
  have "texts_ok (split_lines sql) (fst (Map.empty, []))"
    by (simp add: texts_ok_def)
  from forEach_texts_ok [OF g w' f this]
  have ok: "texts_ok (split_lines sql) highlights" by simp
  show ?thesis
  proof (rule nth_equalityI)
    from c show "length (map div_text (content out)) = length (split_lines sql)" by simp
  next
    fix i assume "i < length (map div_text (content out))"
    with c have i: "i < length (split_lines sql)" by simp
    with c have "content out ! i =
      (case highlights i of Some nodes \<Rightarrow> Highlights nodes | None \<Rightarrow> Line (split_lines sql ! i))"
      by simp
    with ok have "div_text (content out ! i) = split_lines sql ! i"
      by (auto simp: div_text_def texts_ok_def split: option.splits)
    with i c show "map div_text (content out) ! i = split_lines sql ! i" by simp
  qed
qed


lemma SQLHighlight_texts_empty:
  assumes "SQLHighlight isDevelopment [] references = Inr out"
  shows "map div_text (content out) = [[]]"
  using SQLHighlight_texts [OF assms] by simp

subsection \<open>Plain snippets stay in the fragment\<close>







subsection \<open>The variant\<close>

lemma groupBy_from_missing_location:
  "r \<in> set xs \<Longrightarrow> sqlLocation r = None \<Longrightarrow>
   groupBy_from g xs sqlLocation_line = Inl TypeError"
proof (induction xs arbitrary: g)
  case Nil
  then show ?case by simp
next
  case (Cons x xs)
  show ?case
  proof (cases "sqlLocation x")
    case None
    then show ?thesis by (simp add: sqlLocation_line_def)
  next
    case (Some l)
    with Cons.prems have "r \<in> set xs" by auto
    from Cons.IH [OF this Cons.prems(2)] Some show ?thesis
      by (simp add: sqlLocation_line_def)
  qed
qed

subsection \<open>Lines outside the text\<close>

lemma map_fst_add_to_group:
  "map fst (add_to_group k x g) = (if k \<in> set (map fst g) then map fst g else map fst g @ [k])"
proof (induction g)
  case Nil
  show ?case by simp
next
  case (Cons a g)
  obtain k' xs where a: "a = (k', xs)" by (cases a)
  show ?case
  proof (cases "k = k'")
    case True
    with a show ?thesis by simp
  next
    case False
    with a Cons.IH show ?thesis by (cases "k \<in> set (map fst g)") simp_all
  qed
qed

lemma add_to_group_keys: "fst ` set (add_to_group k x g) = insert k (fst ` set g)"
  using map_fst_add_to_group [of k x g, THEN arg_cong, of set]
  by (simp add: insert_absorb split: if_splits)

lemma groupBy_from_keys:
  "groupBy_from g xs iteratee = Inr g' \<Longrightarrow>
   fst ` set g \<subseteq> fst ` set g' \<and> (\<forall>x \<in> set xs. \<forall>k. iteratee x = Inr k \<longrightarrow> k \<in> fst ` set g')"
proof (induction xs arbitrary: g)
  case Nil
  then show ?case by simp
next
  case (Cons x xs)
  from Cons.prems obtain k where k: "iteratee x = Inr k"
    and g': "groupBy_from (add_to_group k x g) xs iteratee = Inr g'"
    by (auto split: sum.splits)
  from Cons.IH [OF g'] k show ?case
    by (auto simp: add_to_group_keys)
qed

lemma set_Object_keys: "set (Object_keys g) = fst ` set g"
  by (auto simp: Object_keys_def)

lemma forEach_key:
  "forEach body keys state = Inr state' \<Longrightarrow> k \<in> set keys \<Longrightarrow>
   \<exists>s s'. body s k = Inr s'"
proof (induction keys arbitrary: state)
  case Nil
  then show ?case by simp
next
  case (Cons a keys)
  then show ?case by (auto split: sum.splits)
qed

lemma highlight_line_in_bounds:
  "highlight_line sqlArray referenceGroups state line = Inr state' \<Longrightarrow>
   1 \<le> line \<and> line \<le> int (length sqlArray)"
  by (auto simp: highlight_line_def Let_def split: option.splits sum.splits if_splits)

text \<open>
  A reference that has a location outside the lines of the SQL text makes the component
  throw, whatever the other references are.
\<close>

lemma line_out_of_bounds_never_returns:
  assumes r: "r \<in> set references" and l: "sqlLocation r = Some line"
    and out: "line < 1 \<or> int (length (split_lines sql)) < line"
  shows "SQLHighlight isDevelopment sql references \<noteq> Inr out"
proof
  assume h: "SQLHighlight isDevelopment sql references = Inr out"
  let ?refs = "filter (\<lambda>r. sqlLocation r \<noteq> None) references"
  from h obtain referenceGroups state' where
    g: "groupBy ?refs sqlLocation_line = Inr referenceGroups"
    and f: "forEach (highlight_line (split_lines sql) referenceGroups)
              (Object_keys referenceGroups) (Map.empty, []) = Inr state'"
    by (auto simp: SQLHighlight_def Let_def split: sum.splits prod.splits)
  from r l have "r \<in> set ?refs" and "sqlLocation_line r = Inr line"
    by (simp_all add: sqlLocation_line_def)
  with groupBy_from_keys [OF g [unfolded groupBy_def]] have "line \<in> fst ` set referenceGroups"
    by blast
  then have "line \<in> set (Object_keys referenceGroups)"
    by (simp only: set_Object_keys)
  from forEach_key [OF f this] obtain s s' where
    "highlight_line (split_lines sql) referenceGroups s line = Inr s'"
    by blast
  from highlight_line_in_bounds [OF this] out show False by simp
qed

section \<open>The properties of the specification\<close>




text \<open>
  C2 (case-insensitive matching). The specification asks that an occurrence of the snippet in
  another letter case be a matched segment whose references include the reference. On
  the line \<^verbatim>\<open>select\<close> with the snippet \<^verbatim>\<open>SELECT\<close> the component marks the
  occurrence and attaches no reference to it: the line's expression ignores case, the
  test that associates the references does not.
\<close>

theorem case_insensitive_match_loses_reference:
  "SQLHighlight False ''select'' [reference_at 1 ''SELECT'' 1]
   = Inr \<lparr>content = [Highlights [Span [], Mark ''select'' [], Span []]], warned = None\<rparr>"
  by code_simp

text \<open>
  C3 (line out of bounds). The specification asks that a reference whose line is outside the SQL
  text be ignored. The component reads \<^verbatim>\<open>sqlArray[lineIndex]\<close> for it and calls
  \<^verbatim>\<open>split\<close> on \<^verbatim>\<open>undefined\<close>: on a text of one line, a reference on line 2 makes
  the component throw a \<^verbatim>\<open>TypeError\<close>.
\<close>

theorem line_out_of_bounds_throws:
  "SQLHighlight False ''a'' [reference_at 1 ''a'' 2] = Inl TypeError"
  by code_simp

text \<open>
  C4 (snippet pattern builder). The pattern \<open>optimizedSnippet\<close> builds is the one the
  three rules of the specification give, applied in their order, which replaces every
  character on its own: \<^verbatim>\<open>(\<close> by \<^verbatim>\<open>\(?\<close>, \<^verbatim>\<open>)\<close> by \<^verbatim>\<open>\)?\<close>, a whitespace
  character by \<^verbatim>\<open>\s*\<close>. The expression built from the snippet \<^verbatim>\<open>a b\<close> matches the
  whole of \<^verbatim>\<open>a    b\<close> and of \<^verbatim>\<open>a\<close>, TAB, \<^verbatim>\<open>b\<close>; the one built from
  \<^verbatim>\<open>f(x)\<close> matches the whole of \<^verbatim>\<open>f(x)\<close> and of \<^verbatim>\<open>fx\<close>.
\<close>

theorem optimizedSnippet_pattern:
  "optimizedSnippet snippet = spec_pattern snippet
   \<and> optimizedSnippet snippet = concat (map pattern_of_char snippet)
   \<and> snippet_pieces ''a b'' ''a    b'' = Inr [[], ''a    b'', []]
   \<and> snippet_pieces ''a b'' (CHR ''a'' # tab # ''b'') = Inr [[], CHR ''a'' # tab # ''b'', []]
   \<and> snippet_pieces ''f(x)'' ''f(x)'' = Inr [[], ''f(x)'', []]
   \<and> snippet_pieces ''f(x)'' ''fx'' = Inr [[], ''fx'', []]"
proof -
  have 1: "optimizedSnippet snippet = spec_pattern snippet"
    by (simp add: optimizedSnippet_def spec_pattern_def replace_open replace_close replace_space)
  have 2: "optimizedSnippet snippet = concat (map pattern_of_char snippet)"
    by (rule optimizedSnippet_chars)
  have 3: "snippet_pieces ''a b'' ''a    b'' = Inr [[], ''a    b'', []]"
    by code_simp
  have 4: "snippet_pieces ''a b'' (CHR ''a'' # tab # ''b'') = Inr [[], CHR ''a'' # tab # ''b'', []]"
    by code_simp
  have 5: "snippet_pieces ''f(x)'' ''f(x)'' = Inr [[], ''f(x)'', []]"
    by code_simp
  have 6: "snippet_pieces ''f(x)'' ''fx'' = Inr [[], ''fx'', []]"
    by code_simp
  from 1 2 3 4 5 6 show ?thesis by blast
qed

text \<open>
  C5 (line scoping). Whenever the component returns, a reference attached to a segment of
  the rendered line \<open>i\<close> (counted from 0) is a reference of the input that declares the
  line \<open>i + 1\<close>: a reference never attaches to a segment of another line.
\<close>

theorem line_scoping:
  assumes "SQLHighlight isDevelopment sql references = Inr out"
    and "i < length (content out)"
    and "n \<in> set (segments (content out ! i))"
    and "r \<in> set (node_refs n)"
  shows "r \<in> set references \<and> sqlLocation r = Some (int i + 1)"
proof -
  from assms(2) SQLHighlight_length [OF assms(1)] have "i < length (split_lines sql)"
    by simp
  from SQLHighlight_refs [OF assms(1) this assms(3,4)] show ?thesis .
qed

theorem line_scoping_witness:
  "SQLHighlight False (''a'' @ newline # ''a'' @ newline # ''a'') [reference_at 7 ''a'' 2]
   = Inr \<lparr>content =
            [Line ''a'', Highlights [Span [], Mark ''a'' [reference_at 7 ''a'' 2], Span []],
             Line ''a''],
          warned = None\<rparr>
   \<and> sqlLocation (reference_at 7 ''a'' 2) = Some (int 1 + 1)"
proof -
  let ?out = "\<lparr>content =
            [Line ''a'', Highlights [Span [], Mark ''a'' [reference_at 7 ''a'' 2], Span []],
             Line ''a''],
          warned = None\<rparr>"
  have h: "SQLHighlight False (''a'' @ newline # ''a'' @ newline # ''a'') [reference_at 7 ''a'' 2]
    = Inr ?out"
    by code_simp
  have "sqlLocation (reference_at 7 ''a'' 2) = Some (int 1 + 1)"
    using line_scoping [OF h, of 1 "Mark ''a'' [reference_at 7 ''a'' 2]" "reference_at 7 ''a'' 2"]
    by simp
  with h show ?thesis by simp
qed

text \<open>
  C6 (references without a location). The component renders the lines, or throws, exactly
  as it does on the references that have a location: the others are dropped before
  anything else is done, they raise nothing, and no segment carries one of them. Outside
  development the whole result is the same; in development the warning, which is computed
  from the unfiltered list, names them among the unmatched references.
\<close>

theorem missing_location_excluded:
  "map_sum id content (SQLHighlight isDevelopment sql references)
   = map_sum id content
       (SQLHighlight isDevelopment sql (filter (\<lambda>r. sqlLocation r \<noteq> None) references))
   \<and> SQLHighlight False sql references
     = SQLHighlight False sql (filter (\<lambda>r. sqlLocation r \<noteq> None) references)
   \<and> (\<forall>out i n r.
        SQLHighlight isDevelopment sql references = Inr out \<longrightarrow>
        i < length (content out) \<longrightarrow>
        n \<in> set (segments (content out ! i)) \<longrightarrow>
        r \<in> set (node_refs n) \<longrightarrow>
        sqlLocation r \<noteq> None)"
proof (intro conjI)
  show "map_sum id content (SQLHighlight isDevelopment sql references)
    = map_sum id content
        (SQLHighlight isDevelopment sql (filter (\<lambda>r. sqlLocation r \<noteq> None) references))"
    by (simp add: SQLHighlight_def Let_def split: sum.splits prod.splits)
next
  show "SQLHighlight False sql references
    = SQLHighlight False sql (filter (\<lambda>r. sqlLocation r \<noteq> None) references)"
    by (simp add: SQLHighlight_def Let_def split: sum.splits prod.splits)
next
  show "\<forall>out i n r.
        SQLHighlight isDevelopment sql references = Inr out \<longrightarrow>
        i < length (content out) \<longrightarrow>
        n \<in> set (segments (content out ! i)) \<longrightarrow>
        r \<in> set (node_refs n) \<longrightarrow>
        sqlLocation r \<noteq> None"
  proof (intro allI impI)
    fix out i n r
    assume h: "SQLHighlight isDevelopment sql references = Inr out"
      and i: "i < length (content out)"
      and n: "n \<in> set (segments (content out ! i))"
      and r: "r \<in> set (node_refs n)"
    from i SQLHighlight_length [OF h] have "i < length (split_lines sql)" by simp
    from SQLHighlight_refs [OF h this n r] show "sqlLocation r \<noteq> None" by simp
  qed
qed

theorem missing_location_excluded_witness:
  "SQLHighlight True ''select a''
     [reference_without_location 1 ''select'', reference_at 2 ''a'' 1]
   = Inr \<lparr>content = [Highlights [Span ''select '', Mark ''a'' [reference_at 2 ''a'' 1], Span []]],
          warned = Some [reference_without_location 1 ''select'']\<rparr>
   \<and> map_sum id content (SQLHighlight True ''select a'' [reference_at 2 ''a'' 1])
     = Inr [Highlights [Span ''select '', Mark ''a'' [reference_at 2 ''a'' 1], Span []]]
   \<and> sqlLocation (reference_at 2 ''a'' 1) \<noteq> None"
proof -
  let ?refs = "[reference_without_location 1 ''select'', reference_at 2 ''a'' 1]"
  let ?out = "\<lparr>content = [Highlights [Span ''select '', Mark ''a'' [reference_at 2 ''a'' 1], Span []]],
          warned = Some [reference_without_location 1 ''select'']\<rparr>"
  have f: "filter (\<lambda>r. sqlLocation r \<noteq> None) ?refs = [reference_at 2 ''a'' 1]"
    by (simp add: reference_without_location_def reference_at_def)
  have h: "SQLHighlight True ''select a'' ?refs = Inr ?out"
    by code_simp
  note inst = missing_location_excluded [of True "''select a''" ?refs]
  from inst have "map_sum id content (SQLHighlight True ''select a'' ?refs)
    = map_sum id content (SQLHighlight True ''select a'' [reference_at 2 ''a'' 1])"
    by (simp only: f)
  with h have e: "map_sum id content (SQLHighlight True ''select a'' [reference_at 2 ''a'' 1])
    = Inr [Highlights [Span ''select '', Mark ''a'' [reference_at 2 ''a'' 1], Span []]]"
    by simp
  from inst have "\<forall>out i n r.
        SQLHighlight True ''select a'' ?refs = Inr out \<longrightarrow>
        i < length (content out) \<longrightarrow>
        n \<in> set (segments (content out ! i)) \<longrightarrow>
        r \<in> set (node_refs n) \<longrightarrow>
        sqlLocation r \<noteq> None"
    by blast
  from this [rule_format, OF h, of 0 "Mark ''a'' [reference_at 2 ''a'' 1]" "reference_at 2 ''a'' 1"]
  have "sqlLocation (reference_at 2 ''a'' 1) \<noteq> None"
    by simp
  with h e show ?thesis by simp
qed

text \<open>
  C7 (unmatched references). The specification asks that a reference whose snippet does not occur
  in its line be in no segment, be reported by a warning at most, never by an exception,
  and leave the rendering alone. On the line \<^verbatim>\<open>a\<close>, with a reference for \<^verbatim>\<open>a\<close> and
  one for \<^verbatim>\<open>b(\<close>, which does not occur, the component throws a \<^verbatim>\<open>SyntaxError\<close>:
  the piece \<^verbatim>\<open>a\<close> is tested against every snippet of the line as a pattern of its
  own, and \<^verbatim>\<open>b(\<close> is not a pattern.
\<close>

theorem unmatched_reference_throws:
  "SQLHighlight False ''a'' [reference_at 1 ''a'' 1, reference_at 2 ''b('' 1]
   = Inl SyntaxError"
  by code_simp

text \<open>
  C8 (empty SQL text). The specification asks for no line and no segment. The empty text has one
  line, the empty one: without references the component renders that line as it is.
\<close>

theorem empty_sql_counterexample:
  "SQLHighlight False [] [] = Inr \<lparr>content = [Line []], warned = None\<rparr>
   \<and> length (content \<lparr>content = [Line []], warned = None\<rparr>) = 1
   \<and> length (segments (Line [])) = 1"
proof -
  have "SQLHighlight False [] [] = Inr \<lparr>content = [Line []], warned = None\<rparr>"
    by code_simp
  then show ?thesis by simp
qed

text \<open>
  C8, amended. For the empty SQL text the component, whenever it returns, renders one
  line, and the texts of that line's segments are empty; without references the line is
  rendered as the empty text.
\<close>

theorem empty_sql_one_line:
  "SQLHighlight isDevelopment [] [] = Inr \<lparr>content = [Line []], warned = None\<rparr>
   \<and> (\<forall>references out.
        SQLHighlight isDevelopment [] references = Inr out \<longrightarrow>
        length (content out) = 1 \<and> map div_text (content out) = [[]])"
proof
  show "SQLHighlight isDevelopment [] [] = Inr \<lparr>content = [Line []], warned = None\<rparr>"
    by (simp add: SQLHighlight_def groupBy_def Object_keys_def printUnmatchedReferences_def)
next
  show "\<forall>references out.
        SQLHighlight isDevelopment [] references = Inr out \<longrightarrow>
        length (content out) = 1 \<and> map div_text (content out) = [[]]"
  proof (intro allI impI)
    fix references out
    assume h: "SQLHighlight isDevelopment [] references = Inr out"
    from SQLHighlight_length [OF h] SQLHighlight_texts_empty [OF h]
    show "length (content out) = 1 \<and> map div_text (content out) = [[]]" by simp
  qed
qed

theorem empty_sql_one_line_witness:
  "SQLHighlight True [] [reference_at 1 ''a'' 1]
   = Inr \<lparr>content = [Highlights [Span []]], warned = Some [reference_at 1 ''a'' 1]\<rparr>
   \<and> length [Highlights [Span []]] = 1
   \<and> map div_text [Highlights [Span []]] = [[]]"
proof -
  have h: "SQLHighlight True [] [reference_at 1 ''a'' 1]
    = Inr \<lparr>content = [Highlights [Span []]], warned = Some [reference_at 1 ''a'' 1]\<rparr>"
    by code_simp
  from empty_sql_one_line [of True] h show ?thesis by (auto simp: div_text_def)
qed

text \<open>
  C9 (a matched segment without references). On the line \<^verbatim>\<open>a  b\<close> with a reference
  for the snippet \<^verbatim>\<open>A B\<close> the component marks \<^verbatim>\<open>a  b\<close>, and the list of the
  references of that mark is empty: the line's expression ignores case and allows any
  whitespace where the snippet has some, the snippet as a pattern of its own does not.
\<close>

theorem matched_segment_without_references:
  "SQLHighlight False ''a  b'' [reference_at 1 ''A B'' 1]
   = Inr \<lparr>content = [Highlights [Span [], Mark ''a  b'' [], Span []]], warned = None\<rparr>
   \<and> is_mark (Mark ''a  b'' [])
   \<and> node_refs (Mark ''a  b'' []) = []"
proof -
  have "SQLHighlight False ''a  b'' [reference_at 1 ''A B'' 1]
    = Inr \<lparr>content = [Highlights [Span [], Mark ''a  b'' [], Span []]], warned = None\<rparr>"
    by code_simp
  then show ?thesis by simp
qed

text \<open>
  C10 (the earlier variant). The variant groups the references by
  \<^verbatim>\<open>reference.sqlLocation.line\<close> without filtering them: as soon as one reference of the
  list has no location, it throws a \<^verbatim>\<open>TypeError\<close>.
\<close>

theorem variant_missing_location_throws:
  assumes "r \<in> set references" and "sqlLocation r = None"
  shows "SQLHighlight_variant sql references = Inl TypeError"
proof -
  from groupBy_from_missing_location [OF assms]
  have "groupBy references sqlLocation_line = Inl TypeError"
    by (simp add: groupBy_def)
  then show ?thesis by (simp add: SQLHighlight_variant_def)
qed

theorem variant_missing_location_throws_witness:
  "reference_without_location 2 ''b'' \<in> set [reference_at 1 ''a'' 1, reference_without_location 2 ''b'']
   \<and> sqlLocation (reference_without_location 2 ''b'') = None
   \<and> SQLHighlight_variant ''a b'' [reference_at 1 ''a'' 1, reference_without_location 2 ''b'']
     = Inl TypeError"
proof -
  have m: "reference_without_location 2 ''b''
      \<in> set [reference_at 1 ''a'' 1, reference_without_location 2 ''b'']"
    by simp
  have l: "sqlLocation (reference_without_location 2 ''b'') = None"
    by (simp add: reference_without_location_def)
  from variant_missing_location_throws [OF m l, of "''a b''"] m l show ?thesis by simp
qed

end
